theory Spec2Isabelle
  imports Complex_Main
begin

section \<open>Tensors\<close>

text \<open>
  A torch tensor is modelled by its shape and its entries, read by a multi-index.
  Entries are exact reals; only indices valid for the shape carry meaning.
\<close>

text \<open>
  \<open>IndexError\<close> and \<open>RuntimeError\<close> are the exceptions Python and torch raise.
  \<open>NonFinite\<close> is not an exception: it marks a run that completes with a weight holding
  NaN or infinite entries, which a real-valued tensor cannot hold.
\<close>

datatype error = IndexError | RuntimeError | NonFinite

record 'a tensor =
  shape :: "nat list"
  elt :: "nat list \<Rightarrow> 'a"

fun valid_index :: "nat list \<Rightarrow> nat list \<Rightarrow> bool" where
  "valid_index [] [] = True"
| "valid_index (d # ds) (i # is) = (i < d \<and> valid_index ds is)"
| "valid_index _ _ = False"

fun all_indices :: "nat list \<Rightarrow> nat list list" where
  "all_indices [] = [[]]"
| "all_indices (d # ds) = concat (map (\<lambda>i. map ((#) i) (all_indices ds)) [0..<d])"

text \<open>\<open>torch.equal\<close>: same shape and the same entry at every valid index.\<close>

definition tensor_equal :: "'a tensor \<Rightarrow> 'a tensor \<Rightarrow> bool" where
  "tensor_equal a b =
     (shape a = shape b \<and> list_all (\<lambda>idx. elt a idx = elt b idx) (all_indices (shape a)))"

definition tmap :: "('a \<Rightarrow> 'b) \<Rightarrow> 'a tensor \<Rightarrow> 'b tensor" where
  "tmap f t = \<lparr>shape = shape t, elt = (\<lambda>idx. f (elt t idx))\<rparr>"

definition zeros :: "nat list \<Rightarrow> real tensor" where
  "zeros sh = \<lparr>shape = sh, elt = (\<lambda>idx. 0)\<rparr>"

definition zeros_like :: "real tensor \<Rightarrow> real tensor" where
  "zeros_like t = zeros (shape t)"

subsection \<open>Broadcasting\<close>

text \<open>
  Two sizes are compatible when they are equal or one of them is 1; shapes are aligned
  at their last dimension, and a missing leading dimension counts as 1.
\<close>

definition bc_dim :: "nat \<Rightarrow> nat \<Rightarrow> nat option" where
  "bc_dim a b = (if a = b then Some a else if a = 1 then Some b
                 else if b = 1 then Some a else None)"

fun bc_rev :: "nat list \<Rightarrow> nat list \<Rightarrow> nat list option" where
  "bc_rev [] ys = Some ys"
| "bc_rev (x # xs) [] = Some (x # xs)"
| "bc_rev (x # xs) (y # ys) =
     (case bc_dim x y of None \<Rightarrow> None
      | Some d \<Rightarrow> (case bc_rev xs ys of None \<Rightarrow> None | Some ds \<Rightarrow> Some (d # ds)))"

definition broadcast_shapes :: "nat list \<Rightarrow> nat list \<Rightarrow> nat list option" where
  "broadcast_shapes a b = map_option rev (bc_rev (rev a) (rev b))"

text \<open>
  The index at which an operand of shape \<open>sh\<close> is read for the result index \<open>idx\<close>:
  the extra leading positions are dropped and a dimension of size 1 is read at 0.
\<close>

definition bc_index :: "nat list \<Rightarrow> nat list \<Rightarrow> nat list" where
  "bc_index sh idx =
     map2 (\<lambda>d i. if d = 1 then 0 else i) sh (drop (length idx - length sh) idx)"

definition tbinop :: "('a \<Rightarrow> 'b \<Rightarrow> 'c) \<Rightarrow> 'a tensor \<Rightarrow> 'b tensor \<Rightarrow> error + 'c tensor" where
  "tbinop f a b =
     (case broadcast_shapes (shape a) (shape b) of
        None \<Rightarrow> Inl RuntimeError
      | Some sh \<Rightarrow>
          Inr \<lparr>shape = sh,
               elt = (\<lambda>idx. f (elt a (bc_index (shape a) idx)) (elt b (bc_index (shape b) idx)))\<rparr>)"

definition torch_mul :: "real tensor \<Rightarrow> real tensor \<Rightarrow> error + real tensor" where
  "torch_mul = tbinop (\<lambda>x y. x * y)"

definition torch_add :: "real tensor \<Rightarrow> real tensor \<Rightarrow> error + real tensor" where
  "torch_add = tbinop (\<lambda>x y. x + y)"

text \<open>
  \<open>dst.copy_(src)\<close>: \<open>src\<close> is broadcast to the shape of \<open>dst\<close>, which keeps its shape;
  a source that does not broadcast to it raises.
\<close>

definition copy_to :: "'a tensor \<Rightarrow> 'a tensor \<Rightarrow> error + 'a tensor" where
  "copy_to dst src =
     (if broadcast_shapes (shape src) (shape dst) = Some (shape dst)
      then Inr \<lparr>shape = shape dst, elt = (\<lambda>idx. elt src (bc_index (shape src) idx))\<rparr>
      else Inl RuntimeError)"

section \<open>Discretizable layers\<close>

text \<open>
  The two classes that mix in \<open>Discretizable\<close>. Both own a continuous weight and a
  stored copy; for \<open>TertiaryLinear\<close> the weight is that of its \<open>torch.nn.Linear\<close>.
  The constructor of the datatype is the object's class, on which the overridden
  methods dispatch.
\<close>

datatype discretizable =
    TertiaryLinear (weight: "real tensor") (stored_weight: "real tensor")
  | MultiActivationModule (weight: "real tensor") (stored_weight: "real tensor")

fun set_weight :: "discretizable \<Rightarrow> real tensor \<Rightarrow> discretizable" where
  "set_weight (TertiaryLinear w s) w' = TertiaryLinear w' s"
| "set_weight (MultiActivationModule w s) w' = MultiActivationModule w' s"

fun set_stored_weight :: "discretizable \<Rightarrow> real tensor \<Rightarrow> discretizable" where
  "set_stored_weight (TertiaryLinear w s) s' = TertiaryLinear w s'"
| "set_stored_weight (MultiActivationModule w s) s' = MultiActivationModule w s'"

subsection \<open>TertiaryLinear\<close>

definition hardshrink :: "real \<Rightarrow> real \<Rightarrow> real" where
  "hardshrink lambd x = (if x > lambd then x else if x < - lambd then x else 0)"

definition sign :: "real \<Rightarrow> real" where
  "sign x = (if x > 0 then 1 else if x < 0 then - 1 else 0)"

definition TertiaryLinear_effective_weight :: "real tensor \<Rightarrow> real tensor" where
  "TertiaryLinear_effective_weight w = tmap sign (tmap (hardshrink (4 / 10)) w)"

definition hardtanh :: "real \<Rightarrow> real" where
  "hardtanh x = (if x > 1 then 1 else if x < - 1 then - 1 else x)"

subsection \<open>MultiActivationModule\<close>

definition relu :: "real \<Rightarrow> real" where
  "relu x = max 0 x"

definition sigmoid :: "real \<Rightarrow> real" where
  "sigmoid x = 1 / (1 + exp (- x))"

definition gaussian :: "real \<Rightarrow> real" where
  "gaussian x = exp (- (x * x) / 2)"

definition step :: "real \<Rightarrow> real" where
  "step t = (if t > 0 then 1 else 0) * 1"

definition available_act_functions :: "(string \<times> (real \<Rightarrow> real)) list" where
  "available_act_functions =
     [(''relu'', relu), (''sigmoid'', sigmoid), (''tanh'', tanh),
      (''gaussian (standard)'', gaussian), (''step'', step)]"

definition funcs :: "(real \<Rightarrow> real) list" where
  "funcs = map snd available_act_functions"

definition n_funcs :: nat where
  "n_funcs = length funcs"

text \<open>
  \<open>torch.max(t, 0).indices\<close>: along the first dimension, the position of the maximum,
  the first one when several entries are maximal. A first dimension of size 0 raises;
  a 0-dimensional tensor is reduced as a single entry.
\<close>

fun argmax_from :: "nat \<Rightarrow> real \<Rightarrow> nat \<Rightarrow> real list \<Rightarrow> nat" where
  "argmax_from bi bv i [] = bi"
| "argmax_from bi bv i (x # xs) =
     (if x > bv then argmax_from i x (Suc i) xs else argmax_from bi bv (Suc i) xs)"

definition argmax_first :: "real list \<Rightarrow> nat" where
  "argmax_first xs = (case xs of [] \<Rightarrow> 0 | x # rest \<Rightarrow> argmax_from 0 x 1 rest)"

definition torch_max_indices :: "real tensor \<Rightarrow> error + nat tensor" where
  "torch_max_indices t =
     (case shape t of
        [] \<Rightarrow> Inr \<lparr>shape = [], elt = (\<lambda>idx. 0)\<rparr>
      | d # ds \<Rightarrow>
          if d = 0 then Inl IndexError
          else Inr \<lparr>shape = ds,
                    elt = (\<lambda>idx. argmax_first (map (\<lambda>i. elt t (i # idx)) [0..<d]))\<rparr>)"

text \<open>\<open>one_hot\<close> appends a dimension of size \<open>n\<close>; an index that is not below \<open>n\<close> raises.\<close>

definition one_hot :: "nat tensor \<Rightarrow> nat \<Rightarrow> error + nat tensor" where
  "one_hot t n =
     (if list_all (\<lambda>idx. elt t idx < n) (all_indices (shape t))
      then Inr \<lparr>shape = shape t @ [n],
                elt = (\<lambda>idx. if last idx = elt t (butlast idx) then 1 else 0)\<rparr>
      else Inl RuntimeError)"

text \<open>\<open>.T\<close> reverses the order of the dimensions.\<close>

definition T :: "'a tensor \<Rightarrow> 'a tensor" where
  "T t = \<lparr>shape = rev (shape t), elt = (\<lambda>idx. elt t (rev idx))\<rparr>"

definition MultiActivationModule_effective_weight :: "real tensor \<Rightarrow> error + real tensor" where
  "MultiActivationModule_effective_weight w =
     (case torch_max_indices w of
        Inl e \<Rightarrow> Inl e
      | Inr indices \<Rightarrow>
          (case one_hot indices n_funcs of
             Inl e \<Rightarrow> Inl e
           | Inr oh \<Rightarrow> Inr (tmap real (T oh))))"

text \<open>
  \<open>coefficients[i, :]\<close>: an integer index on the first dimension and a full slice on the
  second, so the tensor needs two dimensions and \<open>i\<close> must be in range.
\<close>

definition select_row :: "'a tensor \<Rightarrow> nat \<Rightarrow> error + 'a tensor" where
  "select_row t i =
     (case shape t of
        d # d' # ds \<Rightarrow>
          if i < d then Inr \<lparr>shape = d' # ds, elt = (\<lambda>idx. elt t (i # idx))\<rparr>
          else Inl IndexError
      | _ \<Rightarrow> Inl IndexError)"

text \<open>
  The \<open>reduce\<close> of \<open>forward\<close>: \<open>first\<close> is the accumulator, the list is what is left of
  \<open>enumerate(self.funcs)\<close>.
\<close>

fun forward_reduce ::
  "real tensor \<Rightarrow> real tensor \<Rightarrow> real tensor \<Rightarrow> (nat \<times> (real \<Rightarrow> real)) list \<Rightarrow> error + real tensor"
where
  "forward_reduce coefficients x first [] = Inr first"
| "forward_reduce coefficients x first (act # acts) =
     (case select_row coefficients (fst act) of
        Inl e \<Rightarrow> Inl e
      | Inr c \<Rightarrow>
          (case torch_mul (tmap (snd act) x) c of
             Inl e \<Rightarrow> Inl e
           | Inr p \<Rightarrow>
               (case torch_add first p of
                  Inl e \<Rightarrow> Inl e
                | Inr s \<Rightarrow> forward_reduce coefficients x s acts)))"

definition MultiActivationModule_forward :: "discretizable \<Rightarrow> real tensor \<Rightarrow> error + real tensor" where
  "MultiActivationModule_forward m x =
     forward_reduce (weight m) x (zeros_like x) (enumerate 0 funcs)"

subsection \<open>Division and the L2 norm of \<open>MultiActivationModule.clip_weight\<close>\<close>

text \<open>
  The quotient of two finite floating-point numbers under IEEE 754, which torch follows:
  a zero divisor gives NaN for a zero dividend and an infinity otherwise. The divisor of
  \<open>clip_weight\<close> is a norm, so it is never a negative zero.
\<close>

datatype fval = Finite real | PosInf | NegInf | NaN

definition fdiv :: "real \<Rightarrow> real \<Rightarrow> fval" where
  "fdiv a b = (if b \<noteq> 0 then Finite (a / b)
               else if a = 0 then NaN else if a > 0 then PosInf else NegInf)"

fun is_finite :: "fval \<Rightarrow> bool" where
  "is_finite (Finite r) = True"
| "is_finite _ = False"

fun the_real :: "fval \<Rightarrow> real" where
  "the_real (Finite r) = r"
| "the_real _ = 0"

definition all_finite :: "fval tensor \<Rightarrow> bool" where
  "all_finite t = list_all (\<lambda>idx. is_finite (elt t idx)) (all_indices (shape t))"

definition torch_norm_dim0 :: "real tensor \<Rightarrow> real tensor" where
  "torch_norm_dim0 t =
     (case shape t of
        [] \<Rightarrow> \<lparr>shape = [], elt = (\<lambda>idx. sqrt (elt t [] * elt t []))\<rparr>
      | d # ds \<Rightarrow>
          \<lparr>shape = ds,
           elt = (\<lambda>idx. sqrt (\<Sum>i\<leftarrow>[0..<d]. elt t (i # idx) * elt t (i # idx)))\<rparr>)"

definition unsqueeze0 :: "'a tensor \<Rightarrow> 'a tensor" where
  "unsqueeze0 t = \<lparr>shape = 1 # shape t, elt = (\<lambda>idx. elt t (tl idx))\<rparr>"

text \<open>The right-hand side of the assignment in \<open>MultiActivationModule.clip_weight\<close>.\<close>

definition MultiActivationModule_clipped :: "real tensor \<Rightarrow> error + fval tensor" where
  "MultiActivationModule_clipped w = tbinop fdiv w (unsqueeze0 (torch_norm_dim0 w))"

subsection \<open>The methods of \<open>Discretizable\<close>\<close>

fun effective_weight :: "discretizable \<Rightarrow> error + real tensor" where
  "effective_weight (TertiaryLinear w s) = Inr (TertiaryLinear_effective_weight w)"
| "effective_weight (MultiActivationModule w s) = MultiActivationModule_effective_weight w"

definition store_weight :: "discretizable \<Rightarrow> error + discretizable" where
  "store_weight m =
     (case copy_to (stored_weight m) (weight m) of
        Inl e \<Rightarrow> Inl e
      | Inr s \<Rightarrow> Inr (set_stored_weight m s))"

definition restore_weight :: "discretizable \<Rightarrow> error + discretizable" where
  "restore_weight m =
     (case copy_to (weight m) (stored_weight m) of
        Inl e \<Rightarrow> Inl e
      | Inr w \<Rightarrow> Inr (set_weight m w))"

definition discretize_weight :: "discretizable \<Rightarrow> error + discretizable" where
  "discretize_weight m =
     (case store_weight m of
        Inl e \<Rightarrow> Inl e
      | Inr m1 \<Rightarrow>
          (case effective_weight m1 of
             Inl e \<Rightarrow> Inl e
           | Inr ew \<Rightarrow>
               (case copy_to (weight m1) ew of
                  Inl e \<Rightarrow> Inl e
                | Inr w \<Rightarrow> Inr (set_weight m1 w))))"

text \<open>
  \<open>clip_weight\<close>: \<open>TertiaryLinear\<close> inherits the in-place \<open>hardtanh\<close>;
  \<open>MultiActivationModule\<close> overrides it and assigns the quotient by the column norms.
\<close>

fun clip_weight :: "discretizable \<Rightarrow> error + discretizable" where
  "clip_weight (TertiaryLinear w s) = Inr (TertiaryLinear (tmap hardtanh w) s)"
| "clip_weight (MultiActivationModule w s) =
     (case MultiActivationModule_clipped w of
        Inl e \<Rightarrow> Inl e
      | Inr q \<Rightarrow>
          if all_finite q then Inr (MultiActivationModule (tmap the_real q) s)
          else Inl NonFinite)"

text \<open>
  The constructors. \<open>torch.nn.Linear\<close> draws its weight at random and
  \<open>torch.empty_like\<close> leaves the stored weight uninitialised: both contents are
  parameters of the model. The mixture weight starts as zeros.
\<close>

definition TertiaryLinear_init ::
  "nat \<Rightarrow> nat \<Rightarrow> (nat list \<Rightarrow> real) \<Rightarrow> (nat list \<Rightarrow> real) \<Rightarrow> discretizable" where
  "TertiaryLinear_init n_in n_out w0 s0 =
     TertiaryLinear \<lparr>shape = [n_out, n_in], elt = w0\<rparr> \<lparr>shape = [n_out, n_in], elt = s0\<rparr>"

definition MultiActivationModule_init :: "nat \<Rightarrow> (nat list \<Rightarrow> real) \<Rightarrow> discretizable" where
  "MultiActivationModule_init n_out s0 =
     MultiActivationModule (zeros [n_funcs, n_out]) \<lparr>shape = [n_funcs, n_out], elt = s0\<rparr>"


text \<open>
  What the constructors establish and no method changes: the stored weight has the shape
  of the weight, which is a matrix, with one row per activation function for the mixture.
\<close>

fun wf_discretizable :: "discretizable \<Rightarrow> bool" where
  "wf_discretizable (TertiaryLinear w s) = (length (shape w) = 2 \<and> shape s = shape w)"
| "wf_discretizable (MultiActivationModule w s) =
     (length (shape w) = 2 \<and> hd (shape w) = n_funcs \<and> shape s = shape w)"

section \<open>The forward pass\<close>

text \<open>
  \<open>torch.nn.functional.linear\<close> without bias: the last dimension of the input is
  contracted with the second dimension of the weight matrix.
\<close>

definition torch_linear :: "real tensor \<Rightarrow> real tensor \<Rightarrow> error + real tensor" where
  "torch_linear x w =
     (case shape w of
        [n_out, n_in] \<Rightarrow>
          if shape x \<noteq> [] \<and> last (shape x) = n_in
          then Inr \<lparr>shape = butlast (shape x) @ [n_out],
                    elt = (\<lambda>idx. \<Sum>k\<leftarrow>[0..<n_in]. elt x (butlast idx @ [k]) * elt w [last idx, k])\<rparr>
          else Inl RuntimeError
      | _ \<Rightarrow> Inl RuntimeError)"

definition TertiaryLinear_forward :: "discretizable \<Rightarrow> real tensor \<Rightarrow> error + real tensor" where
  "TertiaryLinear_forward m x = torch_linear x (weight m)"

text \<open>\<open>t[:, None, None]\<close>: a 0-dimensional tensor cannot be sliced.\<close>

definition index_colon_None_None :: "'a tensor \<Rightarrow> error + 'a tensor" where
  "index_colon_None_None t =
     (case shape t of
        [] \<Rightarrow> Inl IndexError
      | d # ds \<Rightarrow> Inr \<lparr>shape = d # 1 # 1 # ds, elt = (\<lambda>idx. elt t (hd idx # drop 3 idx))\<rparr>)"

text \<open>
  \<open>torch.cat([a, b], dim=-1)\<close>: both tensors need the same number of dimensions, at least
  one, and the same sizes except in the last; a 1-dimensional tensor of size 0 is skipped.
\<close>

definition torch_cat :: "real tensor \<Rightarrow> real tensor \<Rightarrow> error + real tensor" where
  "torch_cat a b =
     (if shape a = [] \<or> shape b = [] then Inl RuntimeError
      else if shape a = [0] then Inr b
      else if shape b = [0] then Inr a
      else if butlast (shape a) = butlast (shape b)
      then Inr \<lparr>shape = butlast (shape a) @ [last (shape a) + last (shape b)],
                elt = (\<lambda>idx. if last idx < last (shape a) then elt a idx
                             else elt b (butlast idx @ [last idx - last (shape a)]))\<rparr>
      else Inl RuntimeError)"

record ConcatLayer =
  linear' :: discretizable
  activation :: discretizable
  shared_weight :: "real tensor"

definition ConcatLayer_init ::
  "nat \<Rightarrow> nat \<Rightarrow> real tensor \<Rightarrow> (nat list \<Rightarrow> real) \<Rightarrow> (nat list \<Rightarrow> real) \<Rightarrow> (nat list \<Rightarrow> real)
   \<Rightarrow> ConcatLayer" where
  "ConcatLayer_init n_in n_out sw w0 s0 s1 =
     \<lparr>linear' = TertiaryLinear_init n_in n_out w0 s0,
      activation = MultiActivationModule_init n_out s1,
      shared_weight = sw\<rparr>"

definition ConcatLayer_forward :: "ConcatLayer \<Rightarrow> real tensor \<Rightarrow> error + real tensor" where
  "ConcatLayer_forward c x =
     (case TertiaryLinear_forward (linear' c) x of
        Inl e \<Rightarrow> Inl e
      | Inr lin \<Rightarrow>
          (case index_colon_None_None (shared_weight c) of
             Inl e \<Rightarrow> Inl e
           | Inr sw \<Rightarrow>
               (case torch_mul lin sw of
                  Inl e \<Rightarrow> Inl e
                | Inr linear_out \<Rightarrow>
                    (case MultiActivationModule_forward (activation c) linear_out of
                       Inl e \<Rightarrow> Inl e
                     | Inr inner_out \<Rightarrow> torch_cat x inner_out))))"

section \<open>Model\<close>

record Model =
  layer_sizes :: "nat list"
  model_shared_weight :: "real tensor"
  network :: "ConcatLayer list"

text \<open>
  The loop of \<open>Model.__init__\<close> over \<open>layer_sizes[1:]\<close>. \<open>mem\<close> gives the contents of the
  buffers that construction draws at random or leaves uninitialised, three per layer;
  \<open>k\<close> counts the layers built so far.
\<close>

fun build_layers ::
  "real tensor \<Rightarrow> (nat \<Rightarrow> nat list \<Rightarrow> real) \<Rightarrow> nat \<Rightarrow> nat \<Rightarrow> nat list \<Rightarrow> ConcatLayer list" where
  "build_layers sw mem k n_in [] = []"
| "build_layers sw mem k n_in (n_out # rest) =
     ConcatLayer_init n_in n_out sw (mem (3 * k)) (mem (3 * k + 1)) (mem (3 * k + 2))
       # build_layers sw mem (Suc k) (n_in + n_out) rest"

definition Model_init ::
  "real tensor \<Rightarrow> nat list \<Rightarrow> (nat \<Rightarrow> nat list \<Rightarrow> real) \<Rightarrow> error + Model" where
  "Model_init sw sizes mem =
     (case sizes of
        [] \<Rightarrow> Inl IndexError
      | n_in # rest \<Rightarrow>
          Inr \<lparr>layer_sizes = sizes, model_shared_weight = sw,
               network = build_layers sw mem 0 n_in rest\<rparr>)"

definition n_in :: "Model \<Rightarrow> error + nat" where
  "n_in m = (case layer_sizes m of [] \<Rightarrow> Inl IndexError | s # rest \<Rightarrow> Inr s)"

definition n_out :: "Model \<Rightarrow> error + nat" where
  "n_out m = (if layer_sizes m = [] then Inl IndexError else Inr (last (layer_sizes m)))"

text \<open>\<open>torch.nn.Sequential\<close>: each layer is given the output of the one before.\<close>

fun network_forward :: "ConcatLayer list \<Rightarrow> real tensor \<Rightarrow> error + real tensor" where
  "network_forward [] x = Inr x"
| "network_forward (c # cs) x =
     (case ConcatLayer_forward c x of Inl e \<Rightarrow> Inl e | Inr y \<Rightarrow> network_forward cs y)"

text \<open>
  \<open>t[..., -n:]\<close>: the last \<open>n\<close> entries of the last dimension, all of them when \<open>n\<close>
  exceeds its size, and all of them for \<open>n = 0\<close>, where \<open>-0\<close> is \<open>0\<close>.
\<close>

definition slice_last :: "nat \<Rightarrow> real tensor \<Rightarrow> error + real tensor" where
  "slice_last n t =
     (if shape t = [] then Inl IndexError
      else let d = last (shape t);
               start = (if n = 0 \<or> d < n then 0 else d - n)
           in Inr \<lparr>shape = butlast (shape t) @ [d - start],
                   elt = (\<lambda>idx. elt t (butlast idx @ [last idx + start]))\<rparr>)"

text \<open>\<open>torch.nn.Softmax(dim=-1)\<close>; a 0-dimensional tensor is normalised as one entry.\<close>

definition softmax :: "real tensor \<Rightarrow> real tensor" where
  "softmax t =
     (if shape t = [] then \<lparr>shape = [], elt = (\<lambda>idx. exp (elt t []) / exp (elt t []))\<rparr>
      else \<lparr>shape = shape t,
            elt = (\<lambda>idx. exp (elt t idx)
                          / (\<Sum>k\<leftarrow>[0..<last (shape t)]. exp (elt t (butlast idx @ [k]))))\<rparr>)"

definition Model_forward :: "Model \<Rightarrow> real tensor \<Rightarrow> error + real tensor" where
  "Model_forward m x =
     (case network_forward (network m) x of
        Inl e \<Rightarrow> Inl e
      | Inr net_out \<Rightarrow>
          (case n_out m of
             Inl e \<Rightarrow> Inl e
           | Inr n \<Rightarrow>
               (case slice_last n net_out of
                  Inl e \<Rightarrow> Inl e
                | Inr sliced \<Rightarrow> Inr (softmax sliced))))"

text \<open>
  The shapes \<open>Model.__init__\<close> gives the layers of a network whose input has \<open>n\<close>
  features and whose blocks add \<open>os\<close> features, with a shared weight of \<open>S\<close> entries.
  No method changes them; the values of the weights are free.
\<close>

fun layers_ok :: "nat \<Rightarrow> nat \<Rightarrow> nat list \<Rightarrow> ConcatLayer list \<Rightarrow> bool" where
  "layers_ok S n [] [] = True"
| "layers_ok S n (out # os) (c # cs) =
     (shape (weight (linear' c)) = [out, n] \<and> shape (weight (activation c)) = [n_funcs, out]
      \<and> shape (shared_weight c) = [S] \<and> layers_ok S (n + out) os cs)"
| "layers_ok S n _ _ = False"

section \<open>Indices, broadcasting and copies\<close>


lemma all_indices_valid: "idx \<in> set (all_indices sh) \<longleftrightarrow> valid_index sh idx"
proof (induction sh arbitrary: idx)
  case Nil
  then show ?case by (cases idx) auto
next
  case (Cons d ds)
  then show ?case by (cases idx) (auto simp: image_iff)
qed

lemma bc_rev_same: "bc_rev s s = Some s"
  by (induction s) (auto simp: bc_dim_def)

lemma broadcast_shapes_same: "broadcast_shapes s s = Some s"
  by (simp add: broadcast_shapes_def bc_rev_same)

lemma valid_index_length: "valid_index sh idx \<Longrightarrow> length idx = length sh"
  by (induction sh idx rule: valid_index.induct) auto

lemma bc_index_valid: "valid_index sh idx \<Longrightarrow> bc_index sh idx = idx"
proof (induction sh idx rule: valid_index.induct)
  case 1
  then show ?case by (simp add: bc_index_def)
next
  case (2 d ds i "is")
  then have "length is = length ds" by (simp add: valid_index_length)
  with 2 show ?case by (auto simp: bc_index_def)
qed simp_all

lemma tensor_equal_iff:
  "tensor_equal a b \<longleftrightarrow> shape a = shape b \<and> (\<forall>idx. valid_index (shape a) idx \<longrightarrow> elt a idx = elt b idx)"
  by (auto simp: tensor_equal_def list_all_iff all_indices_valid)

lemma copy_to_same_shape:
  assumes "shape src = shape dst"
  shows "\<exists>t. copy_to dst src = Inr t \<and> tensor_equal t src"
  using assms by (simp add: copy_to_def broadcast_shapes_same tensor_equal_iff bc_index_valid)

section \<open>The position of the first maximum\<close>


lemma n_funcs_5: "n_funcs = 5"
  by (simp add: n_funcs_def funcs_def available_act_functions_def)

lemma argmax_from_spec:
  assumes "length pre = i" "bi < i" "pre ! bi = bv"
    and "\<forall>k<i. pre ! k \<le> bv" and "\<forall>k<bi. pre ! k < bv"
  shows "let r = argmax_from bi bv i xs; ys = pre @ xs in
           r < length ys \<and> (\<forall>k<length ys. ys ! k \<le> ys ! r) \<and> (\<forall>k<r. ys ! k < ys ! r)"
  using assms
proof (induction xs arbitrary: pre i bi bv)
  case Nil
  then show ?case by (simp add: Let_def)
next
  case (Cons x xs)
  let ?pre = "pre @ [x]"
  show ?case
  proof (cases "x > bv")
    case True
    have "let r = argmax_from i x (Suc i) xs; ys = ?pre @ xs in
           r < length ys \<and> (\<forall>k<length ys. ys ! k \<le> ys ! r) \<and> (\<forall>k<r. ys ! k < ys ! r)"
    proof (rule Cons.IH)
      show "length ?pre = Suc i" using Cons.prems by simp
      show "i < Suc i" by simp
      show "?pre ! i = x" using Cons.prems(1) by (simp add: nth_append)
      show "\<forall>k<Suc i. ?pre ! k \<le> x"
        using Cons.prems True by (auto simp: nth_append less_Suc_eq intro: less_imp_le order.trans)
      show "\<forall>k<i. ?pre ! k < x"
        using Cons.prems True by (auto simp: nth_append intro: le_less_trans)
    qed
    with True show ?thesis by (simp add: Let_def)
  next
    case False
    have "let r = argmax_from bi bv (Suc i) xs; ys = ?pre @ xs in
           r < length ys \<and> (\<forall>k<length ys. ys ! k \<le> ys ! r) \<and> (\<forall>k<r. ys ! k < ys ! r)"
    proof (rule Cons.IH)
      show "length ?pre = Suc i" using Cons.prems by simp
      show "bi < Suc i" using Cons.prems by simp
      show "?pre ! bi = bv" using Cons.prems by (simp add: nth_append)
      show "\<forall>k<Suc i. ?pre ! k \<le> bv"
        using Cons.prems False by (auto simp: nth_append less_Suc_eq)
      show "\<forall>k<bi. ?pre ! k < bv"
        using Cons.prems by (auto simp: nth_append)
    qed
    with False show ?thesis by (simp add: Let_def)
  qed
qed

lemma argmax_first_spec:
  assumes "xs \<noteq> []"
  shows "argmax_first xs < length xs"
    and "\<forall>k<length xs. xs ! k \<le> xs ! argmax_first xs"
    and "\<forall>k<argmax_first xs. xs ! k < xs ! argmax_first xs"
proof -
  obtain x rest where xs: "xs = x # rest" using assms by (cases xs) auto
  have "let r = argmax_from 0 x 1 rest; ys = [x] @ rest in
           r < length ys \<and> (\<forall>k<length ys. ys ! k \<le> ys ! r) \<and> (\<forall>k<r. ys ! k < ys ! r)"
    by (rule argmax_from_spec) auto
  then have *: "argmax_first xs < length xs \<and> (\<forall>k<length xs. xs ! k \<le> xs ! argmax_first xs)
     \<and> (\<forall>k<argmax_first xs. xs ! k < xs ! argmax_first xs)"
    by (simp add: xs argmax_first_def Let_def)
  show "argmax_first xs < length xs" using * by blast
  show "\<forall>k<length xs. xs ! k \<le> xs ! argmax_first xs" using * by blast
  show "\<forall>k<argmax_first xs. xs ! k < xs ! argmax_first xs" using * by blast
qed

text \<open>The effective mixture weight, through the position of the first maximum of each column.\<close>

lemma maew_char:
  assumes "shape w = [n_funcs, n]"
  shows "\<exists>e. MultiActivationModule_effective_weight w = Inr e \<and> shape e = [n_funcs, n] \<and>
     (\<forall>i j. elt e [i, j] =
        (if i = argmax_first (map (\<lambda>k. elt w [k, j]) [0..<n_funcs]) then 1 else 0))"
proof -
  let ?ind = "\<lparr>shape = [n], elt = (\<lambda>idx. argmax_first (map (\<lambda>i. elt w (i # idx)) [0..<n_funcs]))\<rparr>"
  have mi: "torch_max_indices w = Inr ?ind"
    using assms by (simp add: torch_max_indices_def n_funcs_5)
  have lt: "argmax_first (map (\<lambda>i. elt w (i # idx)) [0..<n_funcs]) < n_funcs" for idx
    using argmax_first_spec(1)[of "map (\<lambda>i. elt w (i # idx)) [0..<n_funcs]"]
    by (simp add: n_funcs_5)
  have oh: "one_hot ?ind n_funcs =
     Inr \<lparr>shape = [n, n_funcs], elt = (\<lambda>idx. if last idx = elt ?ind (butlast idx) then 1 else 0)\<rparr>"
    using lt by (simp add: one_hot_def list_all_iff)
  show ?thesis
    by (simp add: MultiActivationModule_effective_weight_def mi oh T_def tmap_def)
qed

section \<open>Storing, discretizing and restoring\<close>



lemma tensor_equal_sym: "tensor_equal a b \<Longrightarrow> tensor_equal b a"
  by (simp add: tensor_equal_iff)

lemma tensor_equal_trans: "tensor_equal a b \<Longrightarrow> tensor_equal b c \<Longrightarrow> tensor_equal a c"
  by (simp add: tensor_equal_iff)

lemma copy_to_shape: "copy_to dst src = Inr t \<Longrightarrow> shape t = shape dst"
  by (auto simp: copy_to_def split: if_splits)

lemma wf_shapes: "wf_discretizable m \<Longrightarrow> shape (stored_weight m) = shape (weight m)"
  by (cases m) auto

lemma effective_weight_wf:
  assumes "wf_discretizable m"
  shows "\<exists>e. effective_weight m = Inr e \<and> shape e = shape (weight m)"
proof (cases m)
  case (TertiaryLinear w s)
  then show ?thesis by (simp add: TertiaryLinear_effective_weight_def tmap_def)
next
  case (MultiActivationModule w s)
  with assms obtain n where "shape w = [n_funcs, n]"
    by (cases "shape w"; cases "tl (shape w)") auto
  from maew_char[OF this] show ?thesis
    using MultiActivationModule \<open>shape w = [n_funcs, n]\<close> by auto
qed

lemma weight_set_stored [simp]: "weight (set_stored_weight m s) = weight m"
  by (cases m) auto
lemma stored_set_stored [simp]: "stored_weight (set_stored_weight m s) = s"
  by (cases m) auto
lemma weight_set_weight [simp]: "weight (set_weight m w) = w"
  by (cases m) auto
lemma stored_set_weight [simp]: "stored_weight (set_weight m w) = stored_weight m"
  by (cases m) auto

lemma effective_weight_set_stored [simp]:
  "effective_weight (set_stored_weight m s) = effective_weight m"
  by (cases m) auto

lemma discretize_weight_wf:
  assumes "wf_discretizable m"
  shows "\<exists>s w e. discretize_weight m = Inr (set_weight (set_stored_weight m s) w)
           \<and> effective_weight m = Inr e
           \<and> tensor_equal s (weight m) \<and> tensor_equal w e"
proof -
  from copy_to_same_shape[of "weight m" "stored_weight m"] wf_shapes[OF assms]
  obtain s where s: "copy_to (stored_weight m) (weight m) = Inr s" "tensor_equal s (weight m)"
    by auto
  from effective_weight_wf[OF assms]
  obtain e where e: "effective_weight m = Inr e" "shape e = shape (weight m)" by auto
  from copy_to_same_shape[of e "weight m"] e
  obtain w where w: "copy_to (weight m) e = Inr w" "tensor_equal w e" by auto
  have "discretize_weight m = Inr (set_weight (set_stored_weight m s) w)"
    by (simp add: discretize_weight_def store_weight_def s e w)
  with e s w show ?thesis by blast
qed


section \<open>The mixture of activation functions\<close>


lemma enumerate_funcs:
  "enumerate 0 funcs = [(0, relu), (1, sigmoid), (2, tanh), (3, gaussian), (4, step)]"
  by (simp add: funcs_def available_act_functions_def)

lemma bc_rev_Nil2: "bc_rev xs [] = Some xs"
  by (cases xs) auto

lemma rev_last_butlast: "sh \<noteq> [] \<Longrightarrow> rev sh = last sh # rev (butlast sh)"
  by (cases sh rule: rev_cases) auto

lemma broadcast_shapes_last:
  assumes "sh \<noteq> []" "last sh = n"
  shows "broadcast_shapes sh [n] = Some sh"
proof -
  have "bc_rev (rev sh) [n] = Some (rev sh)"
    using assms by (simp add: rev_last_butlast bc_dim_def bc_rev_Nil2)
  then show ?thesis by (simp add: broadcast_shapes_def)
qed

lemma valid_index_last:
  assumes "valid_index sh idx" "sh \<noteq> []"
  shows "idx \<noteq> [] \<and> last idx < last sh"
  using assms
proof (induction sh idx rule: valid_index.induct)
  case (2 d ds i "is")
  show ?case
  proof (cases ds)
    case Nil
    with 2 show ?thesis by (cases "is") auto
  next
    case (Cons d' ds')
    with 2 show ?thesis by (cases "is") auto
  qed
qed simp_all

lemma bc_index_last:
  assumes "valid_index sh idx" "sh \<noteq> []"
  shows "bc_index [last sh] idx = [last idx]"
proof -
  from valid_index_last[OF assms] have ne: "idx \<noteq> []" and lt: "last idx < last sh" by auto
  have "drop (length idx - 1) idx = [last idx]"
    using ne by (metis append_butlast_last_id append_eq_conv_conj length_butlast)
  then show ?thesis using lt by (auto simp: bc_index_def)
qed

lemma forward_reduce_spec:
  assumes "shape w = [n_funcs, n]" "shape x \<noteq> []" "last (shape x) = n"
    and "shape first = shape x" and "\<forall>a\<in>set acts. fst a < n_funcs"
  shows "\<exists>y. forward_reduce w x first acts = Inr y \<and> shape y = shape x \<and>
     (\<forall>idx. valid_index (shape x) idx \<longrightarrow>
        elt y idx = elt first idx + (\<Sum>a\<leftarrow>acts. snd a (elt x idx) * elt w [fst a, last idx]))"
  using assms(4,5)
proof (induction acts arbitrary: first)
  case Nil
  then show ?case by simp
next
  case (Cons act acts)
  define c :: "real tensor" where "c = \<lparr>shape = [n], elt = (\<lambda>idx. elt w (fst act # idx))\<rparr>"
  have c: "select_row w (fst act) = Inr c"
    using assms(1) Cons.prems(2) by (simp add: select_row_def c_def)
  define p :: "real tensor" where "p = \<lparr>shape = shape x,
             elt = (\<lambda>idx. snd act (elt x (bc_index (shape x) idx)) * elt c (bc_index [n] idx))\<rparr>"
  have p: "torch_mul (tmap (snd act) x) c = Inr p"
    using broadcast_shapes_last[OF assms(2,3)]
    by (simp add: torch_mul_def tbinop_def tmap_def p_def c_def)
  define s :: "real tensor" where "s = \<lparr>shape = shape x,
             elt = (\<lambda>idx. elt first (bc_index (shape first) idx) + elt p (bc_index (shape x) idx))\<rparr>"
  have s: "torch_add first p = Inr s"
    using Cons.prems(1) by (simp add: torch_add_def tbinop_def broadcast_shapes_same s_def p_def)
  have "\<exists>y. forward_reduce w x s acts = Inr y \<and> shape y = shape x \<and>
     (\<forall>idx. valid_index (shape x) idx \<longrightarrow>
        elt y idx = elt s idx + (\<Sum>a\<leftarrow>acts. snd a (elt x idx) * elt w [fst a, last idx]))"
    by (rule Cons.IH) (use Cons.prems in \<open>auto simp: s_def\<close>)
  then obtain y where y: "forward_reduce w x s acts = Inr y" "shape y = shape x"
    and yv: "\<And>idx. valid_index (shape x) idx \<Longrightarrow>
        elt y idx = elt s idx + (\<Sum>a\<leftarrow>acts. snd a (elt x idx) * elt w [fst a, last idx])"
    by blast
  have sv: "elt s idx = elt first idx + snd act (elt x idx) * elt w [fst act, last idx]"
    if "valid_index (shape x) idx" for idx
    using that bc_index_last[OF that assms(2)] assms(3) Cons.prems(1)
    by (simp add: bc_index_valid s_def p_def c_def)
  have "forward_reduce w x first (act # acts) = Inr y"
    by (simp add: c p s y)
  moreover have "elt y idx
      = elt first idx + (\<Sum>a\<leftarrow>act # acts. snd a (elt x idx) * elt w [fst a, last idx])"
    if "valid_index (shape x) idx" for idx
    using yv[OF that] sv[OF that] by simp
  ultimately show ?case using y(2) by blast
qed

lemma MultiActivationModule_forward_sum:
  assumes "shape (weight m) = [n_funcs, n]" "shape x \<noteq> []" "last (shape x) = n"
  shows "\<exists>y. MultiActivationModule_forward m x = Inr y \<and> shape y = shape x \<and>
     (\<forall>idx. valid_index (shape x) idx \<longrightarrow>
        elt y idx
          = (\<Sum>a\<leftarrow>enumerate 0 funcs. snd a (elt x idx) * elt (weight m) [fst a, last idx]))"
proof -
  have "\<exists>y. forward_reduce (weight m) x (zeros_like x) (enumerate 0 funcs) = Inr y
     \<and> shape y = shape x \<and>
     (\<forall>idx. valid_index (shape x) idx \<longrightarrow>
        elt y idx = elt (zeros_like x) idx
          + (\<Sum>a\<leftarrow>enumerate 0 funcs. snd a (elt x idx) * elt (weight m) [fst a, last idx]))"
    by (rule forward_reduce_spec[OF assms])
       (auto simp: zeros_like_def zeros_def enumerate_funcs n_funcs_5)
  then show ?thesis
    by (simp add: MultiActivationModule_forward_def zeros_like_def zeros_def)
qed

section \<open>Clipping\<close>


lemma bc_rev_snoc: "bc_rev (xs @ [a]) (xs @ [b]) = map_option (\<lambda>d. xs @ [d]) (bc_dim a b)"
proof (induction xs)
  case Nil
  then show ?case by (simp split: option.splits)
next
  case (Cons x xs)
  then show ?case by (simp add: bc_dim_def split: option.splits)
qed

lemma broadcast_shapes_unsqueezed: "broadcast_shapes (d # ds) (1 # ds) = Some (d # ds)"
proof -
  have "bc_dim d 1 = Some d" by (simp add: bc_dim_def)
  then show ?thesis
    by (simp add: broadcast_shapes_def bc_rev_snoc)
qed

lemma bc_index_unsqueezed:
  assumes "valid_index ds js"
  shows "bc_index (1 # ds) (i # js) = 0 # js"
proof -
  have "length js = length ds" using assms by (rule valid_index_length)
  moreover have "bc_index ds js = js" using assms by (rule bc_index_valid)
  ultimately show ?thesis by (simp add: bc_index_def)
qed


text \<open>The quotient computed by clip_weight, entry by entry.\<close>

lemma clipped_char:
  assumes "shape w = d # ds"
  shows "\<exists>q. MultiActivationModule_clipped w = Inr q \<and> shape q = d # ds \<and>
     (\<forall>i js. i < d \<and> valid_index ds js \<longrightarrow>
        elt q (i # js)
          = fdiv (elt w (i # js)) (sqrt (\<Sum>k\<leftarrow>[0..<d]. elt w (k # js) * elt w (k # js))))"
proof -
  define nrm :: "real tensor" where "nrm = unsqueeze0 (torch_norm_dim0 w)"
  have ns: "shape nrm = 1 # ds"
    using assms by (simp add: nrm_def unsqueeze0_def torch_norm_dim0_def)
  have nv: "elt nrm (i # js) = sqrt (\<Sum>k\<leftarrow>[0..<d]. elt w (k # js) * elt w (k # js))" for i js
    using assms by (simp add: nrm_def unsqueeze0_def torch_norm_dim0_def)
  define q :: "fval tensor" where "q = \<lparr>shape = d # ds,
     elt = (\<lambda>idx. fdiv (elt w (bc_index (shape w) idx)) (elt nrm (bc_index (shape nrm) idx)))\<rparr>"
  have "MultiActivationModule_clipped w = Inr q"
    using assms ns broadcast_shapes_unsqueezed[of d ds]
    by (simp add: MultiActivationModule_clipped_def tbinop_def nrm_def[symmetric] q_def)
  moreover have "elt q (i # js)
      = fdiv (elt w (i # js)) (sqrt (\<Sum>k\<leftarrow>[0..<d]. elt w (k # js) * elt w (k # js)))"
    if "valid_index ds js" "i < d" for i js
  proof -
    have v: "valid_index (d # ds) (i # js)" using that by simp
    show ?thesis
      using bc_index_valid[OF v] bc_index_unsqueezed[OF that(1), of i] assms ns nv
      by (simp add: q_def)
  qed
  moreover have "shape q = d # ds" by (simp add: q_def)
  ultimately show ?thesis by blast
qed

lemma all_finite_iff:
  "all_finite q \<longleftrightarrow> (\<forall>idx. valid_index (shape q) idx \<longrightarrow> is_finite (elt q idx))"
  by (auto simp: all_finite_def list_all_iff all_indices_valid)

lemma is_finite_fdiv [simp]: "is_finite (fdiv a b) \<longleftrightarrow> b \<noteq> 0"
  by (simp add: fdiv_def)







lemma zero_column_norm:
  fixes w :: "real tensor"
  assumes "\<forall>i<d. elt w [i, j] = 0"
  shows "(\<Sum>k\<leftarrow>[0..<d]. elt w [k, j] * elt w [k, j]) = 0"
  using assms by (induction d) auto

lemma zero_column_clipped:
  assumes "shape w = [n_funcs, n]" and "j < n" and "\<forall>i<n_funcs. elt w [i, j] = 0"
  shows "\<exists>q. MultiActivationModule_clipped w = Inr q \<and> shape q = [n_funcs, n]
           \<and> (\<forall>i<n_funcs. elt q [i, j] = NaN)
           \<and> clip_weight (MultiActivationModule w s) = Inl NonFinite"
proof -
  from clipped_char[OF assms(1)] obtain q where
    q: "MultiActivationModule_clipped w = Inr q" and qs: "shape q = [n_funcs, n]"
    and qv: "\<And>i js. i < n_funcs \<Longrightarrow> valid_index [n] js \<Longrightarrow>
       elt q (i # js) = fdiv (elt w (i # js))
          (sqrt (\<Sum>k\<leftarrow>[0..<n_funcs]. elt w (k # js) * elt w (k # js)))"
    by blast
  have nan: "elt q [i, j] = NaN" if "i < n_funcs" for i
    using qv[OF that, of "[j]"] assms(2,3) that zero_column_norm[OF assms(3)]
    by (simp add: fdiv_def)
  have "valid_index (shape q) [0, j]" using qs assms(2) by (simp add: n_funcs_5)
  moreover have "\<not> is_finite (elt q [0, j])" using nan[of 0] by (simp add: n_funcs_5)
  ultimately have "\<not> all_finite q" by (auto simp: all_finite_iff)
  with q have "clip_weight (MultiActivationModule w s) = Inl NonFinite" by simp
  with q qs nan show ?thesis by blast
qed



lemma wf_TertiaryLinear_init: "wf_discretizable (TertiaryLinear_init n out w0 s0)"
  by (simp add: TertiaryLinear_init_def)

lemma wf_MultiActivationModule_init: "wf_discretizable (MultiActivationModule_init out s0)"
  by (simp add: MultiActivationModule_init_def zeros_def)

lemma wf_set_weight:
  "wf_discretizable m \<Longrightarrow> shape w = shape (weight m) \<Longrightarrow> wf_discretizable (set_weight m w)"
  by (cases m) auto

lemma wf_set_stored_weight:
  "wf_discretizable m \<Longrightarrow> shape s = shape (weight m) \<Longrightarrow> wf_discretizable (set_stored_weight m s)"
  by (cases m) auto

lemma restore_weight_wf:
  assumes "wf_discretizable m" "restore_weight m = Inr m'"
  shows "wf_discretizable m'"
  using assms
  by (auto simp: restore_weight_def split: sum.splits dest!: copy_to_shape intro!: wf_set_weight)

lemma discretize_weight_keeps_wf:
  assumes "wf_discretizable m" "discretize_weight m = Inr m'"
  shows "wf_discretizable m'"
proof -
  from discretize_weight_wf[OF assms(1)] assms(2) obtain s w e where
    m': "m' = set_weight (set_stored_weight m s) w" and e: "effective_weight m = Inr e"
    and s: "tensor_equal s (weight m)" and w: "tensor_equal w e" by auto
  from effective_weight_wf[OF assms(1)] e have "shape e = shape (weight m)" by auto
  with s w have "shape s = shape (weight m)" "shape w = shape (weight m)"
    by (simp_all add: tensor_equal_iff)
  then show ?thesis
    unfolding m' using assms(1) by (intro wf_set_weight wf_set_stored_weight) simp_all
qed

lemma clip_weight_keeps_wf:
  assumes "wf_discretizable m" "clip_weight m = Inr m'"
  shows "wf_discretizable m'"
proof (cases m)
  case (TertiaryLinear w s)
  with assms show ?thesis by (auto simp: tmap_def)
next
  case (MultiActivationModule w s)
  with assms(1) obtain d ds where sh: "shape w = d # ds" by (cases "shape w") auto
  from clipped_char[OF sh] obtain q where
    "MultiActivationModule_clipped w = Inr q" "shape q = d # ds" by blast
  with assms MultiActivationModule sh show ?thesis
    by (auto simp: tmap_def split: if_splits)
qed


section \<open>Shapes along the network\<close>


lemma torch_linear_shape:
  assumes "shape w = [out, n]" "shape x = lead @ [n]"
  shows "\<exists>y. torch_linear x w = Inr y \<and> shape y = lead @ [out]"
  using assms by (simp add: torch_linear_def)

lemma broadcast_shapes_shared: "broadcast_shapes [S, B, out] [S, 1, 1] = Some [S, B, out]"
  by (simp add: broadcast_shapes_def bc_dim_def)

lemma torch_cat_3d:
  assumes "shape a = [S, B, n]" "shape b = [S, B, out]"
  shows "torch_cat a b = Inr \<lparr>shape = [S, B, n + out],
            elt = (\<lambda>idx. if last idx < n then elt a idx else elt b (butlast idx @ [last idx - n]))\<rparr>"
  using assms by (simp add: torch_cat_def cong: if_cong)

lemma ConcatLayer_forward_shape:
  assumes "shape (weight (linear' c)) = [out, n]"
    and "shape (weight (activation c)) = [n_funcs, out]"
    and "shape (shared_weight c) = [S]"
    and "shape x = [S, B, n]"
  shows "\<exists>y. ConcatLayer_forward c x = Inr y \<and> shape y = [S, B, n + out]
           \<and> (\<forall>idx. valid_index (shape x) idx \<longrightarrow> elt y idx = elt x idx)"
proof -
  from torch_linear_shape[OF assms(1), of x "[S, B]"] assms(4)
  obtain lin where lin: "TertiaryLinear_forward (linear' c) x = Inr lin" "shape lin = [S, B, out]"
    by (auto simp: TertiaryLinear_forward_def)
  define sw :: "real tensor" where
    "sw = \<lparr>shape = [S, 1, 1], elt = (\<lambda>idx. elt (shared_weight c) (hd idx # drop 3 idx))\<rparr>"
  have sw: "index_colon_None_None (shared_weight c) = Inr sw"
    using assms(3) by (simp add: index_colon_None_None_def sw_def)
  obtain l where l: "torch_mul lin sw = Inr l" "shape l = [S, B, out]"
    using lin(2) broadcast_shapes_shared[of S B out]
    by (simp add: torch_mul_def tbinop_def sw_def)
  have "shape l \<noteq> []" "last (shape l) = out" using l(2) by simp_all
  from MultiActivationModule_forward_sum[OF assms(2) this]
  obtain inner where inner: "MultiActivationModule_forward (activation c) l = Inr inner"
    "shape inner = [S, B, out]"
    using l(2) by auto
  define y :: "real tensor" where "y = \<lparr>shape = [S, B, n + out],
       elt = (\<lambda>idx. if last idx < n then elt x idx else elt inner (butlast idx @ [last idx - n]))\<rparr>"
  have cat: "torch_cat x inner = Inr y"
    using torch_cat_3d[OF assms(4) inner(2)] by (simp add: y_def)
  have "ConcatLayer_forward c x = Inr y"
    by (simp add: ConcatLayer_forward_def lin sw l inner cat)
  moreover have "elt y idx = elt x idx" if "valid_index (shape x) idx" for idx
  proof -
    have "shape x \<noteq> []" using assms(4) by simp
    from valid_index_last[OF that this] assms(4) show ?thesis by (simp add: y_def)
  qed
  ultimately show ?thesis by (auto simp: y_def)
qed

lemma layers_ok_length: "layers_ok S n os cs \<Longrightarrow> length cs = length os"
  by (induction S n os cs rule: layers_ok.induct) auto

lemma layers_ok_take: "layers_ok S n os cs \<Longrightarrow> layers_ok S n (take k os) (take k cs)"
proof (induction S n os cs arbitrary: k rule: layers_ok.induct)
  case (2 S n out os c cs)
  then show ?case by (cases k) auto
qed auto

lemma build_layers_ok:
  assumes "shape sw = [S]"
  shows "layers_ok S n os (build_layers sw mem k n os)"
  using assms
  by (induction os arbitrary: k n)
     (auto simp: ConcatLayer_init_def TertiaryLinear_init_def MultiActivationModule_init_def zeros_def)

lemma network_forward_shape:
  assumes "layers_ok S n os cs" "shape x = [S, B, n]"
  shows "\<exists>y. network_forward cs x = Inr y \<and> shape y = [S, B, n + sum_list os]
           \<and> (\<forall>idx. valid_index (shape x) idx \<longrightarrow> elt y idx = elt x idx)"
  using assms
proof (induction S n os cs arbitrary: x rule: layers_ok.induct)
  case (1 S n)
  then show ?case by simp
next
  case (2 S n out os c cs)
  from "2.prems" have c: "shape (weight (linear' c)) = [out, n]"
    "shape (weight (activation c)) = [n_funcs, out]" "shape (shared_weight c) = [S]"
    and rest: "layers_ok S (n + out) os cs" by auto
  from ConcatLayer_forward_shape[OF c "2.prems"(2)] obtain y where
    y: "ConcatLayer_forward c x = Inr y" "shape y = [S, B, n + out]"
    and yv: "\<And>idx. valid_index (shape x) idx \<Longrightarrow> elt y idx = elt x idx" by blast
  from "2.IH"[OF rest y(2)] obtain z where
    z: "network_forward cs y = Inr z" "shape z = [S, B, n + out + sum_list os]"
    and zv: "\<And>idx. valid_index (shape y) idx \<Longrightarrow> elt z idx = elt y idx" by blast
  have "elt z idx = elt x idx" if "valid_index (shape x) idx" for idx
  proof -
    from that "2.prems"(2) y(2) have "valid_index (shape y) idx"
      by (cases idx; cases "tl idx"; cases "tl (tl idx)"; cases "tl (tl (tl idx))") auto
    then show ?thesis using zv yv[OF that] by simp
  qed
  with y z show ?case by (simp add: add.assoc)
qed auto

lemma build_layers_length: "length (build_layers sw mem k n os) = length os"
  by (induction os arbitrary: k n) auto

lemma build_layers_nth:
  assumes "i < length os"
  shows "build_layers sw mem k n os ! i
       = ConcatLayer_init (n + sum_list (take i os)) (os ! i) sw
           (mem (3 * (k + i))) (mem (3 * (k + i) + 1)) (mem (3 * (k + i) + 2))"
  using assms
proof (induction os arbitrary: i k n)
  case Nil
  then show ?case by simp
next
  case (Cons out os)
  show ?case
  proof (cases i)
    case 0
    then show ?thesis by simp
  next
    case (Suc i')
    with Cons.prems have "i' < length os" by simp
    from Cons.IH[OF this, of "Suc k" "n + out"] Suc show ?thesis by (simp add: add.assoc)
  qed
qed



lemma network_forward_append:
  "network_forward (as @ bs) x
     = (case network_forward as x of Inl e \<Rightarrow> Inl e | Inr u \<Rightarrow> network_forward bs u)"
  by (induction as arbitrary: x) (auto split: sum.splits)

lemma network_forward_take_Suc:
  assumes "j < length cs" "network_forward (take j cs) x = Inr u"
  shows "network_forward (take (Suc j) cs) x = ConcatLayer_forward (cs ! j) u"
  using assms by (simp add: take_Suc_conv_app_nth network_forward_append split: sum.splits)

lemma layers_ok_nth:
  assumes "layers_ok S n os cs" "j < length os"
  shows "shape (weight (linear' (cs ! j))) = [os ! j, n + sum_list (take j os)]
       \<and> shape (weight (activation (cs ! j))) = [n_funcs, os ! j]
       \<and> shape (shared_weight (cs ! j)) = [S]"
  using assms
proof (induction S n os cs arbitrary: j rule: layers_ok.induct)
  case (2 S n out os c cs)
  then show ?case by (cases j) (auto simp: add.assoc)
qed auto

lemma broadcast_shapes_shared_2d: "broadcast_shapes [B, out] [S, 1, 1] = Some [S, B, out]"
  by (simp add: broadcast_shapes_def bc_dim_def)

lemma ConcatLayer_forward_2d:
  assumes "shape (weight (linear' c)) = [out, n]"
    and "shape (weight (activation c)) = [n_funcs, out]"
    and "shape (shared_weight c) = [S]"
    and "shape x = [B, n]"
  shows "ConcatLayer_forward c x = Inl RuntimeError"
proof -
  from torch_linear_shape[OF assms(1), of x "[B]"] assms(4)
  obtain lin where lin: "TertiaryLinear_forward (linear' c) x = Inr lin" "shape lin = [B, out]"
    by (auto simp: TertiaryLinear_forward_def)
  define sw :: "real tensor" where
    "sw = \<lparr>shape = [S, 1, 1], elt = (\<lambda>idx. elt (shared_weight c) (hd idx # drop 3 idx))\<rparr>"
  have sw: "index_colon_None_None (shared_weight c) = Inr sw"
    using assms(3) by (simp add: index_colon_None_None_def sw_def)
  obtain l where l: "torch_mul lin sw = Inr l" "shape l = [S, B, out]"
    using lin(2) broadcast_shapes_shared_2d[of B out S]
    by (simp add: torch_mul_def tbinop_def sw_def)
  have "shape l \<noteq> []" "last (shape l) = out" using l(2) by simp_all
  from MultiActivationModule_forward_sum[OF assms(2) this]
  obtain inner where inner: "MultiActivationModule_forward (activation c) l = Inr inner"
    "shape inner = [S, B, out]"
    using l(2) by auto
  have cat: "torch_cat x inner = Inl RuntimeError"
    using assms(4) inner(2) by (simp add: torch_cat_def)
  show ?thesis
    by (simp add: ConcatLayer_forward_def lin sw l inner cat)
qed

lemma Model_init_layers_ok:
  assumes "shape sw = [S]"
  shows "Model_init sw (n # os) mem
       = Inr \<lparr>layer_sizes = n # os, model_shared_weight = sw, network = build_layers sw mem 0 n os\<rparr>
     \<and> layers_ok S n os (build_layers sw mem 0 n os)"
  using build_layers_ok[OF assms] by (simp add: Model_init_def)

lemma slice_last_3d:
  assumes "shape t = [S, B, d]" "0 < n" "n \<le> d"
  shows "slice_last n t = Inr \<lparr>shape = [S, B, n],
           elt = (\<lambda>idx. elt t (butlast idx @ [last idx + (d - n)]))\<rparr>"
  using assms by (simp add: slice_last_def Let_def)


section \<open>The effective weights\<close>

text \<open>
  C2. The effective weight of a \<open>TertiaryLinear\<close> layer has the shape of the weight, each
  of its entries is one of -1, 0 and 1, and an entry is 0 exactly when the weight's entry
  has absolute value at most 0.4; otherwise it is the sign of the weight's entry.
\<close>

theorem TertiaryLinear_effective_weight_ternary:
  "effective_weight (TertiaryLinear w s) = Inr (TertiaryLinear_effective_weight w)
   \<and> shape (TertiaryLinear_effective_weight w) = shape w
   \<and> elt (TertiaryLinear_effective_weight w) idx \<in> {- 1, 0, 1}
   \<and> (elt (TertiaryLinear_effective_weight w) idx = 0) = (\<bar>elt w idx\<bar> \<le> 4 / 10)
   \<and> elt (TertiaryLinear_effective_weight w) idx
       = (if \<bar>elt w idx\<bar> \<le> 4 / 10 then 0 else sign (elt w idx))"
  by (auto simp: TertiaryLinear_effective_weight_def tmap_def sign_def hardshrink_def)

text \<open>
  C5. For a mixture weight of shape [n_funcs, n], the effective weight of a
  \<open>MultiActivationModule\<close> has the same shape, and in every column \<open>j\<close> there is a row \<open>i\<close>
  that holds a maximal coefficient of the column, comes before every other row holding it,
  and carries the only 1 of the column, every other entry being 0.
\<close>

theorem MultiActivationModule_effective_weight_one_hot:
  assumes "shape w = [n_funcs, n]"
  shows "\<exists>e. effective_weight (MultiActivationModule w s) = Inr e \<and> shape e = [n_funcs, n] \<and>
     (\<forall>j<n. \<exists>i<n_funcs.
        (\<forall>k<n_funcs. elt w [k, j] \<le> elt w [i, j]) \<and>
        (\<forall>k<i. elt w [k, j] < elt w [i, j]) \<and>
        (\<forall>k<n_funcs. elt e [k, j] = (if k = i then 1 else 0)))"
proof -
  from maew_char[OF assms] obtain e where
    e: "MultiActivationModule_effective_weight w = Inr e" "shape e = [n_funcs, n]"
    and v: "\<And>i j. elt e [i, j] =
        (if i = argmax_first (map (\<lambda>k. elt w [k, j]) [0..<n_funcs]) then 1 else 0)"
    by blast
  have "\<exists>i<n_funcs.
        (\<forall>k<n_funcs. elt w [k, j] \<le> elt w [i, j]) \<and>
        (\<forall>k<i. elt w [k, j] < elt w [i, j]) \<and>
        (\<forall>k<n_funcs. elt e [k, j] = (if k = i then 1 else 0))" for j
  proof -
    let ?col = "map (\<lambda>k. elt w [k, j]) [0..<n_funcs]"
    let ?i = "argmax_first ?col"
    have ne: "?col \<noteq> []" by (simp add: n_funcs_5)
    have i: "?i < n_funcs" using argmax_first_spec(1)[OF ne] by simp
    have mx: "\<forall>k<n_funcs. elt w [k, j] \<le> elt w [?i, j]"
      using argmax_first_spec(2)[OF ne] i by simp
    have fst: "\<forall>k<?i. elt w [k, j] < elt w [?i, j]"
      using argmax_first_spec(3)[OF ne] i by simp
    show ?thesis using i mx fst v by blast
  qed
  with e show ?thesis by simp
qed

theorem MultiActivationModule_effective_weight_one_hot_witness:
  "shape (zeros [n_funcs, 1]) = [n_funcs, 1] \<and>
   (\<exists>e. effective_weight (MultiActivationModule (zeros [n_funcs, 1]) (zeros [n_funcs, 1])) = Inr e
      \<and> shape e = [n_funcs, 1] \<and>
     (\<forall>j<1. \<exists>i<n_funcs.
        (\<forall>k<n_funcs. elt (zeros [n_funcs, 1]) [k, j] \<le> elt (zeros [n_funcs, 1]) [i, j]) \<and>
        (\<forall>k<i. elt (zeros [n_funcs, 1]) [k, j] < elt (zeros [n_funcs, 1]) [i, j]) \<and>
        (\<forall>k<n_funcs. elt e [k, j] = (if k = i then 1 else 0))))"
proof -
  have h: "shape (zeros [n_funcs, 1]) = [n_funcs, 1]"
    by (simp add: zeros_def)
  from MultiActivationModule_effective_weight_one_hot [OF h, of "zeros [n_funcs, 1]"] h
  show ?thesis by blast
qed

section \<open>Discretizing and restoring\<close>

text \<open>
  C3. On a layer whose buffers have the shapes its constructor gives them,
  \<open>discretize_weight\<close> returns; afterwards the stored weight equals the weight from
  before the call and the weight equals the effective weight computed from it. The
  forward passes read nothing but this overwritten weight.
\<close>

theorem discretize_weight_stores_and_overwrites:
  assumes "wf_discretizable m"
  shows "\<exists>m' e. discretize_weight m = Inr m' \<and> effective_weight m = Inr e
           \<and> tensor_equal (stored_weight m') (weight m) \<and> tensor_equal (weight m') e"
proof -
  from discretize_weight_wf[OF assms] obtain s w e where
    "discretize_weight m = Inr (set_weight (set_stored_weight m s) w)"
    "effective_weight m = Inr e" "tensor_equal s (weight m)" "tensor_equal w e" by blast
  then show ?thesis by auto
qed

theorem discretize_weight_stores_and_overwrites_witness:
  "wf_discretizable (MultiActivationModule_init 2 (\<lambda>idx. 0)) \<and>
   (\<exists>m' e. discretize_weight (MultiActivationModule_init 2 (\<lambda>idx. 0)) = Inr m'
      \<and> effective_weight (MultiActivationModule_init 2 (\<lambda>idx. 0)) = Inr e
      \<and> tensor_equal (stored_weight m') (weight (MultiActivationModule_init 2 (\<lambda>idx. 0)))
      \<and> tensor_equal (weight m') e)"
proof -
  have h: "wf_discretizable (MultiActivationModule_init 2 (\<lambda>idx. 0))"
    by (simp add: MultiActivationModule_init_def zeros_def)
  from discretize_weight_stores_and_overwrites [OF h] h show ?thesis by blast
qed

text \<open>
  C4. On such a layer \<open>discretize_weight\<close> followed by \<open>restore_weight\<close> returns, and the
  weight afterwards equals the weight from before the two calls.
\<close>

theorem discretize_restore_roundtrip:
  assumes "wf_discretizable m"
  shows "\<exists>m1 m2. discretize_weight m = Inr m1 \<and> restore_weight m1 = Inr m2
           \<and> tensor_equal (weight m2) (weight m)
           \<and> tensor_equal (stored_weight m2) (weight m)"
proof -
  from discretize_weight_wf[OF assms] obtain s w e where
    d: "discretize_weight m = Inr (set_weight (set_stored_weight m s) w)"
    and e: "effective_weight m = Inr e"
    and s: "tensor_equal s (weight m)" and w: "tensor_equal w e" by blast
  from effective_weight_wf[OF assms] e have "shape e = shape (weight m)" by auto
  with s w have "shape s = shape w" by (simp add: tensor_equal_iff)
  from copy_to_same_shape[OF this] obtain r where
    r: "copy_to w s = Inr r" "tensor_equal r s" by auto
  let ?m1 = "set_weight (set_stored_weight m s) w"
  have "restore_weight ?m1 = Inr (set_weight ?m1 r)"
    by (simp add: restore_weight_def r)
  moreover have "tensor_equal r (weight m)"
    using r(2) s by (rule tensor_equal_trans)
  ultimately show ?thesis using d s by auto
qed

theorem discretize_restore_roundtrip_witness:
  "wf_discretizable (TertiaryLinear_init 4 3 (\<lambda>idx. 1) (\<lambda>idx. 0)) \<and>
   (\<exists>m1 m2. discretize_weight (TertiaryLinear_init 4 3 (\<lambda>idx. 1) (\<lambda>idx. 0)) = Inr m1
      \<and> restore_weight m1 = Inr m2
      \<and> tensor_equal (weight m2) (weight (TertiaryLinear_init 4 3 (\<lambda>idx. 1) (\<lambda>idx. 0)))
      \<and> tensor_equal (stored_weight m2) (weight (TertiaryLinear_init 4 3 (\<lambda>idx. 1) (\<lambda>idx. 0))))"
proof -
  have h: "wf_discretizable (TertiaryLinear_init 4 3 (\<lambda>idx. 1) (\<lambda>idx. 0))"
    by (simp add: TertiaryLinear_init_def)
  from discretize_restore_roundtrip [OF h] h show ?thesis by blast
qed

section \<open>The forward pass of the mixture\<close>

text \<open>
  C8. For a mixture weight of shape [n_funcs, n] and an input whose last dimension is
  \<open>n\<close>, \<open>forward\<close> returns a tensor of the input's shape whose entry at every index is the
  sum, over relu, sigmoid, tanh, the standard Gaussian and the step function in this
  order, of the function applied to the input's entry times the coefficient in the
  function's row and the entry's channel.
\<close>

theorem MultiActivationModule_forward_mixture:
  assumes "shape w = [n_funcs, n]" "shape x \<noteq> []" "last (shape x) = n"
  shows "\<exists>y. MultiActivationModule_forward (MultiActivationModule w s) x = Inr y
     \<and> shape y = shape x
     \<and> (\<forall>idx. valid_index (shape x) idx \<longrightarrow>
          elt y idx =
            max 0 (elt x idx) * elt w [0, last idx]
            + 1 / (1 + exp (- elt x idx)) * elt w [1, last idx]
            + tanh (elt x idx) * elt w [2, last idx]
            + exp (- (elt x idx * elt x idx) / 2) * elt w [3, last idx]
            + (if elt x idx > 0 then 1 else 0) * elt w [4, last idx])"
proof -
  have "shape (weight (MultiActivationModule w s)) = [n_funcs, n]"
    using assms(1) by simp
  from MultiActivationModule_forward_sum[OF this assms(2,3)]
  obtain y where fr: "MultiActivationModule_forward (MultiActivationModule w s) x = Inr y"
    and sh: "shape y = shape x"
    and yv: "\<And>idx. valid_index (shape x) idx \<Longrightarrow>
        elt y idx = (\<Sum>a\<leftarrow>enumerate 0 funcs. snd a (elt x idx) * elt w [fst a, last idx])"
    by auto
  have "elt y idx =
            max 0 (elt x idx) * elt w [0, last idx]
            + 1 / (1 + exp (- elt x idx)) * elt w [1, last idx]
            + tanh (elt x idx) * elt w [2, last idx]
            + exp (- (elt x idx * elt x idx) / 2) * elt w [3, last idx]
            + (if elt x idx > 0 then 1 else 0) * elt w [4, last idx]"
    if "valid_index (shape x) idx" for idx
    using yv[OF that]
    by (simp add: enumerate_funcs relu_def sigmoid_def gaussian_def step_def)
  with fr sh show ?thesis by blast
qed

theorem MultiActivationModule_forward_mixture_witness:
  "shape (zeros [n_funcs, 3]) = [n_funcs, 3] \<and> shape (zeros [2, 3]) \<noteq> []
   \<and> last (shape (zeros [2, 3])) = 3 \<and>
   (\<exists>y. MultiActivationModule_forward
           (MultiActivationModule (zeros [n_funcs, 3]) (zeros [n_funcs, 3])) (zeros [2, 3]) = Inr y
     \<and> shape y = shape (zeros [2, 3])
     \<and> (\<forall>idx. valid_index (shape (zeros [2, 3])) idx \<longrightarrow>
          elt y idx =
            max 0 (elt (zeros [2, 3]) idx) * elt (zeros [n_funcs, 3]) [0, last idx]
            + 1 / (1 + exp (- elt (zeros [2, 3]) idx)) * elt (zeros [n_funcs, 3]) [1, last idx]
            + tanh (elt (zeros [2, 3]) idx) * elt (zeros [n_funcs, 3]) [2, last idx]
            + exp (- (elt (zeros [2, 3]) idx * elt (zeros [2, 3]) idx) / 2)
                * elt (zeros [n_funcs, 3]) [3, last idx]
            + (if elt (zeros [2, 3]) idx > 0 then 1 else 0)
                * elt (zeros [n_funcs, 3]) [4, last idx]))"
proof -
  have h1: "shape (zeros [n_funcs, 3]) = [n_funcs, 3]"
    and h2: "shape (zeros [2, 3]) \<noteq> []"
    and h3: "last (shape (zeros [2, 3])) = 3"
    by (simp_all add: zeros_def)
  from MultiActivationModule_forward_mixture [OF h1 h2 h3, of "zeros [n_funcs, 3]"] h1 h2 h3
  show ?thesis by blast
qed

section \<open>Clipping the weight\<close>



text \<open>
  C10. When a column of a mixture weight of shape [n_funcs, n] is all zeros, the quotient
  that \<open>clip_weight\<close> assigns holds NaN at every entry of that column, and the call ends
  with a weight that is not finite. A freshly constructed layer of positive width is such
  a layer: every entry of its clipped weight is NaN.
\<close>

theorem clip_weight_zero_column_nan:
  assumes "shape w = [n_funcs, n]" and "j < n" and "\<forall>i<n_funcs. elt w [i, j] = 0"
    and "0 < n'"
  shows "(\<exists>q. MultiActivationModule_clipped w = Inr q \<and> shape q = [n_funcs, n]
            \<and> (\<forall>i<n_funcs. elt q [i, j] = NaN)
            \<and> clip_weight (MultiActivationModule w s) = Inl NonFinite)
         \<and> (\<exists>q. MultiActivationModule_clipped (weight (MultiActivationModule_init n' s0)) = Inr q
            \<and> (\<forall>i<n_funcs. \<forall>j'<n'. elt q [i, j'] = NaN)
            \<and> clip_weight (MultiActivationModule_init n' s0) = Inl NonFinite)"
proof
  show "\<exists>q. MultiActivationModule_clipped w = Inr q \<and> shape q = [n_funcs, n]
            \<and> (\<forall>i<n_funcs. elt q [i, j] = NaN)
            \<and> clip_weight (MultiActivationModule w s) = Inl NonFinite"
    using assms(1-3) by (rule zero_column_clipped)
next
  let ?z = "zeros [n_funcs, n']"
  let ?s = "\<lparr>shape = [n_funcs, n'], elt = s0\<rparr>"
  have init: "MultiActivationModule_init n' s0 = MultiActivationModule ?z ?s"
    by (simp add: MultiActivationModule_init_def)
  have sh: "shape ?z = [n_funcs, n']" and z: "\<forall>i<n_funcs. elt ?z [i, j'] = 0" for j'
    by (simp_all add: zeros_def)
  have col: "\<exists>q. MultiActivationModule_clipped ?z = Inr q \<and> shape q = [n_funcs, n']
            \<and> (\<forall>i<n_funcs. elt q [i, j'] = NaN)
            \<and> clip_weight (MultiActivationModule ?z ?s) = Inl NonFinite"
    if "j' < n'" for j'
    using sh that z by (rule zero_column_clipped)
  from col[OF assms(4)] obtain q where
    q: "MultiActivationModule_clipped ?z = Inr q"
    and nf: "clip_weight (MultiActivationModule ?z ?s) = Inl NonFinite"
    by blast
  have "elt q [i, j'] = NaN" if "i < n_funcs" "j' < n'" for i j'
    using col[OF that(2)] q that(1) by auto
  with q nf show "\<exists>q. MultiActivationModule_clipped (weight (MultiActivationModule_init n' s0)) = Inr q
            \<and> (\<forall>i<n_funcs. \<forall>j'<n'. elt q [i, j'] = NaN)
            \<and> clip_weight (MultiActivationModule_init n' s0) = Inl NonFinite"
    by (simp add: init)
qed

theorem clip_weight_zero_column_nan_witness:
  "shape (zeros [n_funcs, 2]) = [n_funcs, 2] \<and> (1::nat) < 2
   \<and> \<not> (\<exists>i<n_funcs. elt (zeros [n_funcs, 2]) [i, 1] \<noteq> 0) \<and> (0::nat) < 2
   \<and> (\<exists>q. MultiActivationModule_clipped (zeros [n_funcs, 2]) = Inr q \<and> shape q = [n_funcs, 2]
            \<and> (\<forall>i<n_funcs. elt q [i, 1] = NaN)
            \<and> clip_weight (MultiActivationModule (zeros [n_funcs, 2]) (zeros [n_funcs, 2]))
                = Inl NonFinite)
   \<and> (\<exists>q. MultiActivationModule_clipped (weight (MultiActivationModule_init 2 (\<lambda>idx. 0))) = Inr q
            \<and> (\<forall>i<n_funcs. \<forall>j'<2. elt q [i, j'] = NaN)
            \<and> clip_weight (MultiActivationModule_init 2 (\<lambda>idx. 0)) = Inl NonFinite)"
proof -
  have h1: "shape (zeros [n_funcs, 2]) = [n_funcs, 2]"
    and h3: "\<forall>i<n_funcs. elt (zeros [n_funcs, 2]) [i, 1] = 0"
    by (simp_all add: zeros_def)
  have h2: "(1::nat) < 2" and h4: "(0::nat) < 2" by simp_all
  from clip_weight_zero_column_nan [OF h1 h2 h3 h4, of "zeros [n_funcs, 2]" "\<lambda>idx. 0"]
    h1 h2 h3 h4
  show ?thesis by blast
qed

section \<open>Constructing the model\<close>

text \<open>
  C6, as the code has it. The constructor reads \<open>layer_sizes[0]\<close>, so it raises
  \<open>IndexError\<close> when there is no layer size, and only then. With one layer size it
  returns a model without blocks, whose forward pass is the softmax of the last columns
  of the input.
\<close>

theorem Model_init_fails_only_without_sizes:
  "Model_init sw [] mem = Inl IndexError
   \<and> Model_init sw (n # os) mem
       = Inr \<lparr>layer_sizes = n # os, model_shared_weight = sw,
              network = build_layers sw mem 0 n os\<rparr>
   \<and> Model_init sw [n] mem = Inr \<lparr>layer_sizes = [n], model_shared_weight = sw, network = []\<rparr>
   \<and> (\<exists>e. Model_init sw sizes mem = Inl e) = (sizes = [])
   \<and> Model_forward \<lparr>layer_sizes = [n], model_shared_weight = sw, network = []\<rparr> x
       = (case slice_last n x of Inl e \<Rightarrow> Inl e | Inr sliced \<Rightarrow> Inr (softmax sliced))"
  by (cases sizes) (simp_all add: Model_init_def Model_forward_def n_out_def)

text \<open>C6, as stated, fails: with the single layer size 4 the constructor returns a model.\<close>

theorem Model_init_one_size_counterexample:
  "Model_init (zeros [1]) [4] (\<lambda>k idx. 0)
     = Inr \<lparr>layer_sizes = [4], model_shared_weight = zeros [1], network = []\<rparr>"
  by (simp add: Model_init_def)

text \<open>
  C7. A model built from \<open>n + 1\<close> sizes has \<open>n\<close> blocks, and block \<open>k\<close>, counted from 1,
  has a linear weight of shape [size \<open>k\<close>, sum of the sizes 0 to \<open>k - 1\<close>] and a mixture
  weight of shape [n_funcs, size \<open>k\<close>]. On an input of shape [S, B, size 0], with S the
  length of the shared weight, the first \<open>k - 1\<close> blocks return a tensor whose width is the
  sum of the sizes 0 to \<open>k - 1\<close>, block \<open>k\<close> returns on it a tensor whose width is the sum
  of the sizes 0 to \<open>k\<close>, and that output agrees with the block's input at every index of
  the input.
\<close>

theorem Model_init_running_width:
  assumes "Model_init sw sizes mem = Inr m" and "1 \<le> k" and "k < length sizes"
  shows "length (network m) = length sizes - 1
     \<and> shape (weight (linear' (network m ! (k - 1)))) = [sizes ! k, sum_list (take k sizes)]
     \<and> shape (weight (activation (network m ! (k - 1)))) = [n_funcs, sizes ! k]
     \<and> (shape sw = [S] \<and> shape x = [S, B, hd sizes] \<longrightarrow>
          (\<exists>u y. network_forward (take (k - 1) (network m)) x = Inr u
             \<and> shape u = [S, B, sum_list (take k sizes)]
             \<and> ConcatLayer_forward (network m ! (k - 1)) u = Inr y
             \<and> network_forward (take k (network m)) x = Inr y
             \<and> shape y = [S, B, sum_list (take (Suc k) sizes)]
             \<and> (\<forall>idx. valid_index (shape u) idx \<longrightarrow> elt y idx = elt u idx)))"
proof -
  from assms(1) obtain n os where sizes: "sizes = n # os"
    by (cases sizes) (auto simp: Model_init_def)
  from assms(2) obtain j where k: "k = Suc j" by (cases k) auto
  with assms(3) sizes have j: "j < length os" by simp
  let ?cs = "build_layers sw mem 0 n os"
  have net: "network m = ?cs"
    using assms(1) by (auto simp: sizes Model_init_def)
  have len: "length (network m) = length sizes - 1"
    by (simp add: net sizes build_layers_length)
  have layer: "?cs ! j = ConcatLayer_init (n + sum_list (take j os)) (os ! j) sw
           (mem (3 * j)) (mem (3 * j + 1)) (mem (3 * j + 2))"
    using build_layers_nth[OF j, of sw mem 0 n] by simp
  have w1: "shape (weight (linear' (network m ! (k - 1)))) = [sizes ! k, sum_list (take k sizes)]"
    by (simp add: net k sizes layer ConcatLayer_init_def TertiaryLinear_init_def)
  have w2: "shape (weight (activation (network m ! (k - 1)))) = [n_funcs, sizes ! k]"
    by (simp add: net k sizes layer ConcatLayer_init_def MultiActivationModule_init_def zeros_def)
  have fw: "\<exists>u y. network_forward (take (k - 1) (network m)) x = Inr u
             \<and> shape u = [S, B, sum_list (take k sizes)]
             \<and> ConcatLayer_forward (network m ! (k - 1)) u = Inr y
             \<and> network_forward (take k (network m)) x = Inr y
             \<and> shape y = [S, B, sum_list (take (Suc k) sizes)]
             \<and> (\<forall>idx. valid_index (shape u) idx \<longrightarrow> elt y idx = elt u idx)"
    if sw: "shape sw = [S]" and x: "shape x = [S, B, hd sizes]"
  proof -
    have ok: "layers_ok S n os ?cs" using sw by (rule build_layers_ok)
    have x': "shape x = [S, B, n]" using x sizes by simp
    from network_forward_shape[OF layers_ok_take[OF ok, of j] x']
    obtain u where u: "network_forward (take j ?cs) x = Inr u"
      "shape u = [S, B, n + sum_list (take j os)]" by blast
    from layers_ok_nth[OF ok j]
    have c: "shape (weight (linear' (?cs ! j))) = [os ! j, n + sum_list (take j os)]"
      "shape (weight (activation (?cs ! j))) = [n_funcs, os ! j]"
      "shape (shared_weight (?cs ! j)) = [S]" by auto
    from ConcatLayer_forward_shape[OF c u(2)] obtain y where
      y: "ConcatLayer_forward (?cs ! j) u = Inr y"
      "shape y = [S, B, n + sum_list (take j os) + os ! j]"
      and yv: "\<forall>idx. valid_index (shape u) idx \<longrightarrow> elt y idx = elt u idx" by blast
    have jl: "j < length ?cs" using j by (simp add: build_layers_length)
    have t: "network_forward (take (Suc j) ?cs) x = Inr y"
      using network_forward_take_Suc[OF jl u(1)] y(1) by simp
    have s: "sum_list (take (Suc j) os) = sum_list (take j os) + os ! j"
      using j by (simp add: take_Suc_conv_app_nth)
    show ?thesis
      using u y yv t s by (simp add: net k sizes add.assoc)
  qed
  from len w1 w2 fw show ?thesis by blast
qed

theorem Model_init_running_width_witness:
  "Model_init (zeros [2]) [4, 3, 2] (\<lambda>k idx. 0) = Inr \<lparr>layer_sizes = [4, 3, 2], model_shared_weight = zeros [2],
       network = build_layers (zeros [2]) (\<lambda>k idx. 0) 0 4 [3, 2]\<rparr>
   \<and> (1::nat) \<le> 2 \<and> (2::nat) < length [4, 3, 2::nat]
   \<and> length (network \<lparr>layer_sizes = [4, 3, 2], model_shared_weight = zeros [2],
       network = build_layers (zeros [2]) (\<lambda>k idx. 0) 0 4 [3, 2]\<rparr>) = length [4, 3, 2::nat] - 1
   \<and> shape (weight (linear' (network \<lparr>layer_sizes = [4, 3, 2], model_shared_weight = zeros [2],
       network = build_layers (zeros [2]) (\<lambda>k idx. 0) 0 4 [3, 2]\<rparr> ! (2 - 1)))) = [[4, 3, 2] ! 2, sum_list (take 2 [4, 3, 2])]
   \<and> shape (weight (activation (network \<lparr>layer_sizes = [4, 3, 2], model_shared_weight = zeros [2],
       network = build_layers (zeros [2]) (\<lambda>k idx. 0) 0 4 [3, 2]\<rparr> ! (2 - 1)))) = [n_funcs, [4, 3, 2] ! 2]
   \<and> shape (zeros [2]) = [2] \<and> shape (zeros [2, 3, 4]) = [2, 3, hd [4, 3, 2]]
   \<and> (\<exists>u y. network_forward (take (2 - 1) (network \<lparr>layer_sizes = [4, 3, 2], model_shared_weight = zeros [2],
       network = build_layers (zeros [2]) (\<lambda>k idx. 0) 0 4 [3, 2]\<rparr>)) (zeros [2, 3, 4]) = Inr u
         \<and> shape u = [2, 3, sum_list (take 2 [4, 3, 2])]
         \<and> ConcatLayer_forward (network \<lparr>layer_sizes = [4, 3, 2], model_shared_weight = zeros [2],
       network = build_layers (zeros [2]) (\<lambda>k idx. 0) 0 4 [3, 2]\<rparr> ! (2 - 1)) u = Inr y
         \<and> network_forward (take 2 (network \<lparr>layer_sizes = [4, 3, 2], model_shared_weight = zeros [2],
       network = build_layers (zeros [2]) (\<lambda>k idx. 0) 0 4 [3, 2]\<rparr>)) (zeros [2, 3, 4]) = Inr y
         \<and> shape y = [2, 3, sum_list (take (Suc 2) [4, 3, 2])]
         \<and> (\<forall>idx. valid_index (shape u) idx \<longrightarrow> elt y idx = elt u idx))"
proof -
  let ?m = "\<lparr>layer_sizes = [4, 3, 2], model_shared_weight = zeros [2],
       network = build_layers (zeros [2]) (\<lambda>k idx. 0) 0 4 [3, 2]\<rparr>"
  have h1: "Model_init (zeros [2]) [4, 3, 2] (\<lambda>k idx. 0) = Inr ?m"
    by (simp add: Model_init_def)
  have h2: "(1::nat) \<le> 2" and h3: "(2::nat) < length [4, 3, 2::nat]" by simp_all
  have s1: "shape (zeros [2]) = [2]" and s2: "shape (zeros [2, 3, 4]) = [2, 3, hd [4, 3, 2]]"
    by (simp_all add: zeros_def)
  from Model_init_running_width [OF h1 h2 h3, of 2 "zeros [2, 3, 4]" 3] h1 h2 h3 s1 s2
  show ?thesis by blast
qed

section \<open>The forward pass of the model\<close>

text \<open>
  C1, as the code has it. With a shared weight of length S the constructor returns a
  model for the layer sizes (4, 3, 2). On a model with these sizes and the shapes the
  constructor gives, whatever the weights, \<open>forward\<close> on an input of shape [S, B, 4]
  returns a tensor of shape [S, B, 2] whose rows are non-negative and sum to 1. On an
  input of shape [B, 4] it raises: the product with \<open>shared_weight[:, None, None]\<close> has
  three dimensions and cannot be concatenated with the input.
\<close>

theorem Model_forward_softmax_rows:
  assumes "shape sw = [S]"
    and "layer_sizes m = [4, 3, 2]" and "layers_ok S 4 [3, 2] (network m)"
    and "shape x = [S, B, 4]" and "shape x2 = [B, 4]"
  shows "(\<exists>m0. Model_init sw [4, 3, 2] mem = Inr m0 \<and> layer_sizes m0 = [4, 3, 2]
            \<and> layers_ok S 4 [3, 2] (network m0))
       \<and> (\<exists>y. Model_forward m x = Inr y \<and> shape y = [S, B, 2]
            \<and> (\<forall>s<S. \<forall>b<B. 0 \<le> elt y [s, b, 0] \<and> 0 \<le> elt y [s, b, 1]
                  \<and> elt y [s, b, 0] + elt y [s, b, 1] = 1))
       \<and> Model_forward m x2 = Inl RuntimeError"
proof (intro conjI)
  show "\<exists>m0. Model_init sw [4, 3, 2] mem = Inr m0 \<and> layer_sizes m0 = [4, 3, 2]
            \<and> layers_ok S 4 [3, 2] (network m0)"
    using Model_init_layers_ok[OF assms(1), of 4 "[3, 2]" mem] by simp
next
  from network_forward_shape[OF assms(3,4)] obtain net where
    net: "network_forward (network m) x = Inr net" "shape net = [S, B, 9]"
    by auto
  have n: "n_out m = Inr 2" using assms(2) by (simp add: n_out_def)
  define sl :: "real tensor" where
    "sl = \<lparr>shape = [S, B, 2], elt = (\<lambda>idx. elt net (butlast idx @ [last idx + (9 - 2)]))\<rparr>"
  have sl: "slice_last 2 net = Inr sl"
    using slice_last_3d[OF net(2), of 2] by (simp add: sl_def)
  have fw: "Model_forward m x = Inr (softmax sl)"
    by (simp add: Model_forward_def net n sl)
  have sh: "shape (softmax sl) = [S, B, 2]"
    by (simp add: softmax_def sl_def)
  have v: "elt (softmax sl) [s, b, c]
      = exp (elt sl [s, b, c]) / (exp (elt sl [s, b, 0]) + exp (elt sl [s, b, 1]))" for s b c
    by (simp add: softmax_def sl_def upt_rec numeral_2_eq_2)
  have pos: "0 < exp (elt sl [s, b, 0]) + exp (elt sl [s, b, 1])" for s b
    by (simp add: add_pos_pos)
  have "0 \<le> elt (softmax sl) [s, b, 0] \<and> 0 \<le> elt (softmax sl) [s, b, 1]
        \<and> elt (softmax sl) [s, b, 0] + elt (softmax sl) [s, b, 1] = 1" for s b
    using pos[of s b] by (simp add: v add_divide_distrib[symmetric] less_imp_le)
  with fw sh show "\<exists>y. Model_forward m x = Inr y \<and> shape y = [S, B, 2]
            \<and> (\<forall>s<S. \<forall>b<B. 0 \<le> elt y [s, b, 0] \<and> 0 \<le> elt y [s, b, 1]
                  \<and> elt y [s, b, 0] + elt y [s, b, 1] = 1)"
    by blast
next
  from assms(3) obtain c cs where cs: "network m = c # cs"
    by (cases "network m") auto
  with assms(3) have "shape (weight (linear' c)) = [3, 4]"
    "shape (weight (activation c)) = [n_funcs, 3]" "shape (shared_weight c) = [S]"
    by auto
  from ConcatLayer_forward_2d[OF this assms(5)]
  show "Model_forward m x2 = Inl RuntimeError"
    by (simp add: Model_forward_def cs)
qed

theorem Model_forward_softmax_rows_witness:
  "shape (zeros [2]) = [2]
   \<and> layer_sizes \<lparr>layer_sizes = [4, 3, 2], model_shared_weight = zeros [2],
       network = build_layers (zeros [2]) (\<lambda>k idx. 0) 0 4 [3, 2]\<rparr> = [4, 3, 2]
   \<and> layers_ok 2 4 [3, 2] (network \<lparr>layer_sizes = [4, 3, 2], model_shared_weight = zeros [2],
       network = build_layers (zeros [2]) (\<lambda>k idx. 0) 0 4 [3, 2]\<rparr>)
   \<and> shape (zeros [2, 3, 4]) = [2, 3, 4] \<and> shape (zeros [3, 4]) = [3, 4]
   \<and> (\<exists>m0. Model_init (zeros [2]) [4, 3, 2] (\<lambda>k idx. 0) = Inr m0 \<and> layer_sizes m0 = [4, 3, 2]
            \<and> layers_ok 2 4 [3, 2] (network m0))
   \<and> (\<exists>y. Model_forward \<lparr>layer_sizes = [4, 3, 2], model_shared_weight = zeros [2],
       network = build_layers (zeros [2]) (\<lambda>k idx. 0) 0 4 [3, 2]\<rparr> (zeros [2, 3, 4]) = Inr y \<and> shape y = [2, 3, 2]
            \<and> (\<forall>s<2. \<forall>b<3. 0 \<le> elt y [s, b, 0] \<and> 0 \<le> elt y [s, b, 1]
                  \<and> elt y [s, b, 0] + elt y [s, b, 1] = 1))
   \<and> Model_forward \<lparr>layer_sizes = [4, 3, 2], model_shared_weight = zeros [2],
       network = build_layers (zeros [2]) (\<lambda>k idx. 0) 0 4 [3, 2]\<rparr> (zeros [3, 4]) = Inl RuntimeError"
proof -
  let ?m = "\<lparr>layer_sizes = [4, 3, 2], model_shared_weight = zeros [2],
       network = build_layers (zeros [2]) (\<lambda>k idx. 0) 0 4 [3, 2]\<rparr>"
  have h1: "shape (zeros [2]) = [2]"
    and h4: "shape (zeros [2, 3, 4]) = [2, 3, 4]" and h5: "shape (zeros [3, 4]) = [3, 4]"
    by (simp_all add: zeros_def)
  have h2: "layer_sizes ?m = [4, 3, 2]" by simp
  have h3: "layers_ok 2 4 [3, 2] (network ?m)"
    using build_layers_ok[OF h1, of 4 "[3, 2]" "\<lambda>k idx. 0" 0] by simp
  from Model_forward_softmax_rows [OF h1 h2 h3 h4 h5, of "\<lambda>k idx. 0"] h1 h2 h3 h4 h5
  show ?thesis by blast
qed

text \<open>
  C1, as stated, fails: on the model built for (4, 3, 2) with a shared weight of length 1,
  \<open>forward\<close> raises on the input of shape [1, 4].
\<close>

theorem Model_forward_2d_input_counterexample:
  "Model_init (zeros [1]) [4, 3, 2] (\<lambda>k idx. 0)
     = Inr \<lparr>layer_sizes = [4, 3, 2], model_shared_weight = zeros [1],
            network = build_layers (zeros [1]) (\<lambda>k idx. 0) 0 4 [3, 2]\<rparr>
   \<and> shape (zeros [1, 4]) = [1, 4]
   \<and> Model_forward
        \<lparr>layer_sizes = [4, 3, 2], model_shared_weight = zeros [1],
         network = build_layers (zeros [1]) (\<lambda>k idx. 0) 0 4 [3, 2]\<rparr>
        (zeros [1, 4]) = Inl RuntimeError"
proof -
  let ?c = "ConcatLayer_init 4 3 (zeros [1]) (\<lambda>idx. 0) (\<lambda>idx. 0) (\<lambda>idx. 0)"
  have "ConcatLayer_forward ?c (zeros [1, 4]) = Inl RuntimeError"
    by (rule ConcatLayer_forward_2d[where out = 3 and n = 4 and S = 1 and B = 1])
       (simp_all add: ConcatLayer_init_def TertiaryLinear_init_def MultiActivationModule_init_def
          zeros_def)
  then show ?thesis
    by (simp add: Model_init_def Model_forward_def zeros_def)
qed

end
